theory Spec2Isabelle
  imports Main "HOL-Library.AList" "HOL-Library.Sublist"
begin

section \<open>Text summariser: chunking, per-chunk summarisation, merge\<close>

text \<open>
  A shallow embedding of \<^verbatim>\<open>text_sum_pydanticai.py\<close>. Python strings are
  \<^typ>\<open>string\<close>, a character being a code point below 256. The calls into libraries (NLTK's \<^verbatim>\<open>sent_tokenize\<close> and
  \<^verbatim>\<open>word_tokenize\<close>, \<^verbatim>\<open>agent.run\<close>, \<^verbatim>\<open>json.loads\<close>) are parameters of the
  functions that make them. Console output (\<^verbatim>\<open>print\<close>) is not part of the model.
  Exceptions are the subclasses of \<^verbatim>\<open>Exception\<close>, which is what the handlers of the
  program catch.
\<close>

subsection \<open>Chunking (lines 27--44)\<close>

type_synonym tokenizer = "string \<Rightarrow> string list"

text \<open>\<^verbatim>\<open>" ".join(xs)\<close>\<close>

fun join_space :: "string list \<Rightarrow> string" where
  "join_space [] = []"
| "join_space [s] = s"
| "join_space (s # t # ss) = s @ '' '' @ join_space (t # ss)"

text \<open>
  The body of the \<^verbatim>\<open>for sentence in sentences\<close> loop, on the three variables
  \<^verbatim>\<open>chunks\<close>, \<^verbatim>\<open>current_chunk\<close> and \<^verbatim>\<open>current_length\<close>. \<^verbatim>\<open>max_words\<close> is a
  Python integer, so it may be negative.
\<close>

fun chunk_loop ::
  "tokenizer \<Rightarrow> int \<Rightarrow> string list \<Rightarrow> string list \<Rightarrow> string list \<Rightarrow> int
    \<Rightarrow> string list \<times> string list \<times> int" where
  "chunk_loop word_tokenize max_words [] chunks current_chunk current_length =
     (chunks, current_chunk, current_length)"
| "chunk_loop word_tokenize max_words (sentence # sentences) chunks current_chunk current_length =
     (let words = word_tokenize sentence in
      if current_length + int (length words) \<le> max_words
      then chunk_loop word_tokenize max_words sentences
             chunks (current_chunk @ [sentence]) (current_length + int (length words))
      else chunk_loop word_tokenize max_words sentences
             (chunks @ [join_space current_chunk]) [sentence] (int (length words)))"

definition chunk_text :: "tokenizer \<Rightarrow> tokenizer \<Rightarrow> string \<Rightarrow> int \<Rightarrow> string list" where
  "chunk_text sent_tokenize word_tokenize text max_words =
     (case chunk_loop word_tokenize max_words (sent_tokenize text) [] [] 0 of
        (chunks, current_chunk, current_length) \<Rightarrow>
          if current_chunk \<noteq> [] then chunks @ [join_space current_chunk] else chunks)"

text \<open>
  The same loop with the join left out: the groups of sentences that become the chunks.
  It is used to say which sentences a chunk is made of.
\<close>

fun group_loop ::
  "tokenizer \<Rightarrow> int \<Rightarrow> string list \<Rightarrow> string list list \<Rightarrow> string list \<Rightarrow> int
    \<Rightarrow> string list list \<times> string list \<times> int" where
  "group_loop word_tokenize max_words [] groups current_chunk current_length =
     (groups, current_chunk, current_length)"
| "group_loop word_tokenize max_words (sentence # sentences) groups current_chunk current_length =
     (let words = word_tokenize sentence in
      if current_length + int (length words) \<le> max_words
      then group_loop word_tokenize max_words sentences
             groups (current_chunk @ [sentence]) (current_length + int (length words))
      else group_loop word_tokenize max_words sentences
             (groups @ [current_chunk]) [sentence] (int (length words)))"

definition chunk_groups :: "tokenizer \<Rightarrow> tokenizer \<Rightarrow> string \<Rightarrow> int \<Rightarrow> string list list" where
  "chunk_groups sent_tokenize word_tokenize text max_words =
     (case group_loop word_tokenize max_words (sent_tokenize text) [] [] 0 of
        (groups, current_chunk, current_length) \<Rightarrow>
          if current_chunk \<noteq> [] then groups @ [current_chunk] else groups)"

text \<open>The number of words of a text, as line 114 counts it.\<close>

definition word_count :: "tokenizer \<Rightarrow> string \<Rightarrow> int" where
  "word_count word_tokenize s = int (length (word_tokenize s))"

text \<open>
  A small tokenizer pair to run the chunker on concrete texts: words are the maximal runs
  of characters other than the space, and a sentence ends with a full stop.
\<close>

fun split_words_from :: "string \<Rightarrow> string \<Rightarrow> string list" where
  "split_words_from [] cur = (if cur = [] then [] else [cur])"
| "split_words_from (c # cs) cur =
     (if c = CHR '' ''
      then (if cur = [] then split_words_from cs [] else cur # split_words_from cs [])
      else split_words_from cs (cur @ [c]))"

definition split_words :: tokenizer where
  "split_words s = split_words_from s []"

fun split_sentences_from :: "string \<Rightarrow> string \<Rightarrow> string list" where
  "split_sentences_from [] cur = (if cur = [] then [] else [cur])"
| "split_sentences_from (c # cs) cur =
     (if c = CHR ''.'' then (cur @ [c]) # split_sentences_from cs []
      else if c = CHR '' '' \<and> cur = [] then split_sentences_from cs []
      else split_sentences_from cs (cur @ [c]))"

definition split_sentences :: tokenizer where
  "split_sentences s = split_sentences_from s []"



text \<open>
  The words of a group of sentences, counted sentence by sentence, and the three shapes
  a group can have when the loop lays it down.
\<close>

definition sentence_words :: "tokenizer \<Rightarrow> string list \<Rightarrow> int" where
  "sentence_words word_tokenize g = (\<Sum>s\<leftarrow>g. word_count word_tokenize s)"

definition group_ok :: "tokenizer \<Rightarrow> int \<Rightarrow> string list \<Rightarrow> bool" where
  "group_ok word_tokenize max_words g \<longleftrightarrow>
     g = [] \<or> (\<exists>s. g = [s] \<and> max_words < word_count word_tokenize s)
     \<or> sentence_words word_tokenize g \<le> max_words"

subsection \<open>Summary schema (lines 21--24)\<close>

record SummaryOutput =
  heading :: string
  main_point :: string
  action_items :: "string list"

text \<open>
  The values \<^verbatim>\<open>json.loads\<close> returns. A float keeps its lexeme: floating point is not
  modelled. An object is the Python dict as a list of its items, with one item per key.
\<close>

datatype json =
  JNull
| JBool bool
| JInt int
| JFloat string
| JStr string
| JArr "json list"
| JObj "(string \<times> json) list"

datatype py_error =
  ValueError string
| JSONDecodeError
| ValidationError
| OtherError string

text \<open>
  \<^verbatim>\<open>json.loads\<close> on a text: \<open>None\<close> when it raises. The text the program passes starts
  with an opening brace (or is empty), so a value it returns is a dict.
\<close>

type_synonym json_loads = "string \<Rightarrow> (string \<times> json) list option"

text \<open>
  Validation of one field by the model class: a \<^verbatim>\<open>str\<close> field takes a JSON string, a
  \<^verbatim>\<open>List[str]\<close> field takes a JSON array of strings. Nothing else coming from
  \<^verbatim>\<open>json.loads\<close> is accepted, and the empty string is a string.
\<close>

fun str_field :: "json \<Rightarrow> string option" where
  "str_field (JStr s) = Some s"
| "str_field _ = None"

fun str_list_field :: "json \<Rightarrow> string list option" where
  "str_list_field (JArr xs) = those (map str_field xs)"
| "str_list_field _ = None"

text \<open>\<^verbatim>\<open>SummaryOutput(**json_data)\<close>: keys that are not fields are ignored.\<close>

definition SummaryOutput_init :: "(string \<times> json) list \<Rightarrow> py_error + SummaryOutput" where
  "SummaryOutput_init json_data =
     (case (map_of json_data ''heading'', map_of json_data ''main_point'',
            map_of json_data ''action_items'') of
        (Some h, Some m, Some a) \<Rightarrow>
          (case (str_field h, str_field m, str_list_field a) of
             (Some h', Some m', Some a') \<Rightarrow>
               Inr \<lparr>heading = h', main_point = m', action_items = a'\<rparr>
           | _ \<Rightarrow> Inl ValidationError)
      | _ \<Rightarrow> Inl ValidationError)"

subsection \<open>Prompt template (lines 47--76)\<close>

definition build_prompt :: "string \<Rightarrow> string" where
  \<open>build_prompt chunk = concat
    [''You are an expert at summarizing technical content in strict JSON format.\<newline>'',
     ''\<newline>'',
     ''INPUT TEXT:\<newline>'',
     chunk, ''\<newline>'',
     ''\<newline>'',
     ''YOUR TASK:\<newline>'',
     ''1. Create a SHORT heading (3-7 words)\<newline>'',
     ''2. Write a CONCISE main point (1 sentence)\<newline>'',
     ''3. List 3 ACTIONABLE items (bullet points)\<newline>'',
     ''\<newline>'',
     ''REQUIRED JSON FORMAT:\<newline>'',
     ''```json\<newline>'',
     ''{\<newline>'',
     ''    "heading": "string",\<newline>'',
     ''    "main_point": "string",\<newline>'',
     ''    "action_items": ["string", "string", "string"]\<newline>'',
     ''}\<newline>'',
     ''EXAMPLE:\<newline>'',
     ''{\<newline>'',
     ''    "heading": "Spreadsheet Formatting Basics",\<newline>'',
     ''    "main_point": "Proper formatting improves spreadsheet readability and functionality.",\<newline>'',
     ''    "action_items": [\<newline>'',
     ''        "Use clear column headers",\<newline>'',
     ''        "Apply consistent cell formatting",\<newline>'',
     ''        "Add borders to important sections"\<newline>'',
     ''    ]\<newline>'',
     ''}\<newline>'',
     ''```'']\<close>

subsection \<open>Summarising one chunk (lines 79--108)\<close>

text \<open>
  What \<^verbatim>\<open>await agent.run(prompt)\<close> gives on one call: it raises, it gives a result that
  is falsy or has no \<^verbatim>\<open>output\<close> attribute, or it gives a result with its output text.
  The model behind the agent is a state \<open>'w\<close> that each call may change.
\<close>

datatype agent_result = Raises py_error | NoOutput | Output string

type_synonym 'w agent = "string \<Rightarrow> 'w \<Rightarrow> agent_result \<times> 'w"

text \<open>\<^verbatim>\<open>s.find(c)\<close> and \<^verbatim>\<open>s.rfind(c)\<close> for a single character: an index, or \<open>-1\<close>.\<close>

fun py_find :: "char \<Rightarrow> string \<Rightarrow> int" where
  "py_find c [] = - 1"
| "py_find c (x # xs) =
     (if x = c then 0 else (let r = py_find c xs in if r = - 1 then - 1 else r + 1))"

definition py_rfind :: "char \<Rightarrow> string \<Rightarrow> int" where
  "py_rfind c s =
     (let r = py_find c (rev s) in if r = - 1 then - 1 else int (length s) - 1 - r)"

text \<open>\<^verbatim>\<open>s[a:b]\<close> for indices that are not negative, as they are on line 95.\<close>

definition py_slice :: "string \<Rightarrow> int \<Rightarrow> int \<Rightarrow> string" where
  "py_slice s a b = drop (nat a) (take (nat b) s)"

text \<open>Lines 90--95: the text from the first opening brace to the last closing brace.\<close>

definition extract_json :: "string \<Rightarrow> py_error + string" where
  "extract_json response_text =
     (let json_start = py_find CHR ''{'' response_text;
          json_end = py_rfind CHR ''}'' response_text + 1
      in if json_start = - 1 \<or> json_end = 0
         then Inl (ValueError ''No JSON found in response'')
         else Inr (py_slice response_text json_start json_end))"

definition required_keys :: "string list" where
  "required_keys = [''heading'', ''main_point'', ''action_items'']"

text \<open>
  The body of the \<^verbatim>\<open>try\<close> of one attempt, from the result of the call on: \<open>Inl\<close> is
  an exception raised in it, \<open>Inr (Some summary)\<close> is \<^verbatim>\<open>return summary\<close>, and
  \<open>Inr None\<close> is reaching the end of the body without a return.
\<close>

definition try_body :: "json_loads \<Rightarrow> agent_result \<Rightarrow> py_error + SummaryOutput option" where
  "try_body loads result =
     (case result of
        Raises e \<Rightarrow> Inl e
      | NoOutput \<Rightarrow> Inr None
      | Output response_text \<Rightarrow>
          (case extract_json response_text of
             Inl e \<Rightarrow> Inl e
           | Inr json_str \<Rightarrow>
               (case loads json_str of
                  None \<Rightarrow> Inl JSONDecodeError
                | Some json_data \<Rightarrow>
                    if list_all (\<lambda>key. map_of json_data key \<noteq> None) required_keys
                    then (case SummaryOutput_init json_data of
                            Inl e \<Rightarrow> Inl e
                          | Inr summary \<Rightarrow> Inr (Some summary))
                    else Inr None)))"

text \<open>
  The \<^verbatim>\<open>for attempt in range(max_retries)\<close> loop. An exception is caught by the handler
  of line 104; after it, and after a body that did not return, the loop goes on to the
  next attempt, and after the last one the function returns \<^verbatim>\<open>None\<close>.
\<close>

fun run_attempts ::
  "'w agent \<Rightarrow> json_loads \<Rightarrow> string \<Rightarrow> nat list \<Rightarrow> 'w \<Rightarrow> SummaryOutput option \<times> 'w" where
  "run_attempts agent loads prompt [] w = (None, w)"
| "run_attempts agent loads prompt (attempt # attempts) w =
     (case agent prompt w of
        (result, w') \<Rightarrow>
          (case try_body loads result of
             Inr (Some summary) \<Rightarrow> (Some summary, w')
           | Inr None \<Rightarrow> run_attempts agent loads prompt attempts w'
           | Inl e \<Rightarrow> run_attempts agent loads prompt attempts w'))"

definition run_summary ::
  "'w agent \<Rightarrow> json_loads \<Rightarrow> string \<Rightarrow> 'w \<Rightarrow> SummaryOutput option \<times> 'w" where
  "run_summary agent loads chunk w =
     (let prompt = build_prompt chunk; max_retries = 2
      in run_attempts agent loads prompt [0..<max_retries] w)"

text \<open>
  The three ways a response text fails an attempt without a type error: no brace pair,
  a text between the braces that does not parse, or a parsed object that lacks one of the
  required keys.
\<close>

definition no_json_pair :: "string \<Rightarrow> bool" where
  "no_json_pair response_text \<longleftrightarrow>
     py_find CHR ''{'' response_text = - 1 \<or> py_rfind CHR ''}'' response_text = - 1"

definition json_substring :: "string \<Rightarrow> string" where
  "json_substring response_text =
     py_slice response_text (py_find CHR ''{'' response_text)
       (py_rfind CHR ''}'' response_text + 1)"

definition malformed :: "json_loads \<Rightarrow> string \<Rightarrow> bool" where
  "malformed loads response_text \<longleftrightarrow>
     no_json_pair response_text \<or>
     (case loads (json_substring response_text) of
        None \<Rightarrow> True
      | Some json_data \<Rightarrow> \<exists>key\<in>set required_keys. map_of json_data key = None)"

text \<open>The values of the three keys have the types the schema declares.\<close>

definition field_types_ok :: "(string \<times> json) list \<Rightarrow> bool" where
  "field_types_ok json_data \<longleftrightarrow>
     (case map_of json_data ''heading'' of Some (JStr h) \<Rightarrow> True | _ \<Rightarrow> False) \<and>
     (case map_of json_data ''main_point'' of Some (JStr m) \<Rightarrow> True | _ \<Rightarrow> False) \<and>
     (case map_of json_data ''action_items'' of
        Some (JArr xs) \<Rightarrow> list_all (\<lambda>x. case x of JStr s \<Rightarrow> True | _ \<Rightarrow> False) xs
      | _ \<Rightarrow> False)"

text \<open>
  A response text that parses to an object with the three keys, but with a value of the
  wrong type.
\<close>

definition ill_typed :: "json_loads \<Rightarrow> string \<Rightarrow> bool" where
  "ill_typed loads response_text \<longleftrightarrow>
     \<not> no_json_pair response_text \<and>
     (case loads (json_substring response_text) of
        None \<Rightarrow> False
      | Some json_data \<Rightarrow>
          list_all (\<lambda>key. map_of json_data key \<noteq> None) required_keys
          \<and> \<not> field_types_ok json_data)"

text \<open>
  An agent that replays a script of results, one per call, and the values of
  \<^verbatim>\<open>json.loads\<close> on the texts of the examples (on any other text it is taken to raise).
\<close>

fun scripted_agent :: "(agent_result list) agent" where
  "scripted_agent prompt [] = (Raises (OtherError ''no response''), [])"
| "scripted_agent prompt (r # rs) = (r, rs)"

definition sample_loads :: json_loads where
  \<open>sample_loads = map_of
    [(''{"heading": "", "main_point": "", "action_items": []}'',
        [(''heading'', JStr ''''), (''main_point'', JStr ''''), (''action_items'', JArr [])]),
     (''{"heading": "Notes"}'',
        [(''heading'', JStr ''Notes'')]),
     (''{"heading": null, "main_point": "Keep notes.", "action_items": ["Write"]}'',
        [(''heading'', JNull), (''main_point'', JStr ''Keep notes.''),
         (''action_items'', JArr [JStr ''Write''])]),
     (''{"heading": "Notes", "main_point": "Keep notes.", "action_items": "Write"}'',
        [(''heading'', JStr ''Notes''), (''main_point'', JStr ''Keep notes.''),
         (''action_items'', JStr ''Write'')]),
     (''{"heading": "Notes", "main_point": "Keep notes.", "action_items": ["Write", "Review", "Share"]}'',
        [(''heading'', JStr ''Notes''), (''main_point'', JStr ''Keep notes.''),
         (''action_items'', JArr [JStr ''Write'', JStr ''Review'', JStr ''Share''])])]\<close>

subsection \<open>Summarising all chunks (lines 111--128)\<close>

text \<open>
  The call \<^verbatim>\<open>await run_summary(chunk)\<close> as the \<^verbatim>\<open>try\<close> of line 115 sees it: it
  returns a summary, returns \<^verbatim>\<open>None\<close>, or raises. The loop is written for any such
  call, so that the handler of line 126 is a branch of it; the program uses it with
  \<open>run_summary\<close>, which catches what is raised in it. A summary object is truthy, so
  the test of line 117 fails for \<^verbatim>\<open>None\<close> only.
\<close>

type_synonym 'w summarizer = "string \<Rightarrow> 'w \<Rightarrow> (py_error + SummaryOutput option) \<times> 'w"

fun summarize_loop ::
  "'w summarizer \<Rightarrow> string list \<Rightarrow> SummaryOutput list \<Rightarrow> 'w \<Rightarrow> SummaryOutput list \<times> 'w" where
  "summarize_loop call [] all_summaries w = (all_summaries, w)"
| "summarize_loop call (chunk # chunks) all_summaries w =
     (case call chunk w of
        (Inr (Some summary), w') \<Rightarrow> summarize_loop call chunks (all_summaries @ [summary]) w'
      | (Inr None, w') \<Rightarrow> summarize_loop call chunks all_summaries w'
      | (Inl e, w') \<Rightarrow> summarize_loop call chunks all_summaries w')"

definition summarize_chunks_with ::
  "'w summarizer \<Rightarrow> string list \<Rightarrow> 'w \<Rightarrow> SummaryOutput list \<times> 'w" where
  "summarize_chunks_with call chunks w = summarize_loop call chunks [] w"

definition awaited_run_summary :: "'w agent \<Rightarrow> json_loads \<Rightarrow> 'w summarizer" where
  "awaited_run_summary agent loads chunk w =
     (case run_summary agent loads chunk w of (summary, w') \<Rightarrow> (Inr summary, w'))"

definition summarize_chunks ::
  "'w agent \<Rightarrow> json_loads \<Rightarrow> string list \<Rightarrow> 'w \<Rightarrow> SummaryOutput list \<times> 'w" where
  "summarize_chunks agent loads chunks w =
     summarize_chunks_with (awaited_run_summary agent loads) chunks w"

text \<open>
  The outcome of the call for each chunk in turn, and the summaries among the outcomes:
  what the run is said to return.
\<close>

fun outcomes :: "'w summarizer \<Rightarrow> string list \<Rightarrow> 'w \<Rightarrow> (py_error + SummaryOutput option) list" where
  "outcomes call [] w = []"
| "outcomes call (chunk # chunks) w =
     (case call chunk w of (r, w') \<Rightarrow> r # outcomes call chunks w')"

fun successful :: "(py_error + SummaryOutput option) list \<Rightarrow> SummaryOutput list" where
  "successful [] = []"
| "successful (Inr (Some summary) # rs) = summary # successful rs"
| "successful (r # rs) = successful rs"

subsection \<open>The final report (lines 130--162)\<close>

text \<open>\<^verbatim>\<open>str(n)\<close> for a counter, which is never negative.\<close>

function str_nat :: "nat \<Rightarrow> string" where
  "str_nat n =
     (if n < 10 then [''0123456789'' ! n]
      else str_nat (n div 10) @ [''0123456789'' ! (n mod 10)])"
  by pat_completeness auto
termination
  by (relation "measure id") auto

text \<open>
  Line 153, \<^verbatim>\<open>re.sub(r'[^\w\s]', '', item.lower()).strip()\<close>. A character is a code
  point below 256, and the three tables are Python's for these code points:
  \<^verbatim>\<open>str.lower\<close> maps the upper case letters (A to Z, and 0xC0 to 0xDE but for 0xD7);
  \<^verbatim>\<open>\w\<close> takes the underscore and what \<^verbatim>\<open>str.isalnum\<close> takes (the letters, the
  digits, and the superscripts and fractions of 0xB2 to 0xBE); \<^verbatim>\<open>\s\<close> and
  \<^verbatim>\<open>strip\<close> take what \<^verbatim>\<open>str.isspace\<close> takes.
\<close>

definition upper_chars :: "char list" where
  "upper_chars = ''ABCDEFGHIJKLMNOPQRSTUVWXYZ'' @
     [CHR 0xC0, CHR 0xC1, CHR 0xC2, CHR 0xC3, CHR 0xC4, CHR 0xC5, CHR 0xC6, CHR 0xC7,
      CHR 0xC8, CHR 0xC9, CHR 0xCA, CHR 0xCB, CHR 0xCC, CHR 0xCD, CHR 0xCE, CHR 0xCF,
      CHR 0xD0, CHR 0xD1, CHR 0xD2, CHR 0xD3, CHR 0xD4, CHR 0xD5, CHR 0xD6, CHR 0xD8,
      CHR 0xD9, CHR 0xDA, CHR 0xDB, CHR 0xDC, CHR 0xDD, CHR 0xDE]"

definition lower_chars :: "char list" where
  "lower_chars = ''abcdefghijklmnopqrstuvwxyz'' @
     [CHR 0xE0, CHR 0xE1, CHR 0xE2, CHR 0xE3, CHR 0xE4, CHR 0xE5, CHR 0xE6, CHR 0xE7,
      CHR 0xE8, CHR 0xE9, CHR 0xEA, CHR 0xEB, CHR 0xEC, CHR 0xED, CHR 0xEE, CHR 0xEF,
      CHR 0xF0, CHR 0xF1, CHR 0xF2, CHR 0xF3, CHR 0xF4, CHR 0xF5, CHR 0xF6, CHR 0xF8,
      CHR 0xF9, CHR 0xFA, CHR 0xFB, CHR 0xFC, CHR 0xFD, CHR 0xFE]"

definition lower_char :: "char \<Rightarrow> char" where
  "lower_char c =
     (case map_of (zip upper_chars lower_chars) c of
        Some l \<Rightarrow> l
      | None \<Rightarrow> c)"

definition is_word_char :: "char \<Rightarrow> bool" where
  "is_word_char c \<longleftrightarrow>
     c \<in> set (''abcdefghijklmnopqrstuvwxyzABCDEFGHIJKLMNOPQRSTUVWXYZ0123456789_'' @
     [CHR 0xAA, CHR 0xB2, CHR 0xB3, CHR 0xB5, CHR 0xB9, CHR 0xBA, CHR 0xBC, CHR 0xBD,
      CHR 0xBE, CHR 0xC0, CHR 0xC1, CHR 0xC2, CHR 0xC3, CHR 0xC4, CHR 0xC5, CHR 0xC6,
      CHR 0xC7, CHR 0xC8, CHR 0xC9, CHR 0xCA, CHR 0xCB, CHR 0xCC, CHR 0xCD, CHR 0xCE,
      CHR 0xCF, CHR 0xD0, CHR 0xD1, CHR 0xD2, CHR 0xD3, CHR 0xD4, CHR 0xD5, CHR 0xD6,
      CHR 0xD8, CHR 0xD9, CHR 0xDA, CHR 0xDB, CHR 0xDC, CHR 0xDD, CHR 0xDE, CHR 0xDF,
      CHR 0xE0, CHR 0xE1, CHR 0xE2, CHR 0xE3, CHR 0xE4, CHR 0xE5, CHR 0xE6, CHR 0xE7,
      CHR 0xE8, CHR 0xE9, CHR 0xEA, CHR 0xEB, CHR 0xEC, CHR 0xED, CHR 0xEE, CHR 0xEF,
      CHR 0xF0, CHR 0xF1, CHR 0xF2, CHR 0xF3, CHR 0xF4, CHR 0xF5, CHR 0xF6, CHR 0xF8,
      CHR 0xF9, CHR 0xFA, CHR 0xFB, CHR 0xFC, CHR 0xFD, CHR 0xFE, CHR 0xFF])"

definition is_space_char :: "char \<Rightarrow> bool" where
  "is_space_char c \<longleftrightarrow>
     c \<in> set [CHR '' '', CHR 0x09, CHR 0x0A, CHR 0x0B, CHR 0x0C, CHR 0x0D,
                CHR 0x1C, CHR 0x1D, CHR 0x1E, CHR 0x1F, CHR 0x85, CHR 0xA0]"

definition py_strip :: "string \<Rightarrow> string" where
  "py_strip s = rev (dropWhile is_space_char (rev (dropWhile is_space_char s)))"

definition normalized :: "string \<Rightarrow> string" where
  "normalized item =
     py_strip (filter (\<lambda>c. is_word_char c \<or> is_space_char c) (map lower_char item))"

text \<open>Lines 140--141: the numbered action items of one summary.\<close>

fun action_lines :: "nat \<Rightarrow> string list \<Rightarrow> string" where
  "action_lines j [] = []"
| "action_lines j (item # items) =
     ''  '' @ str_nat j @ ''. '' @ item @ ''\<newline>'' @ action_lines (Suc j) items"

text \<open>Lines 136--142: one block per summary, numbered from \<open>i\<close>.\<close>

fun detailed_blocks :: "nat \<Rightarrow> SummaryOutput list \<Rightarrow> string" where
  "detailed_blocks i [] = []"
| "detailed_blocks i (summary # summaries) =
     ''CHUNK '' @ str_nat i @ '': '' @ heading summary @ ''\<newline>''
     @ ''Main Point: '' @ main_point summary @ ''\<newline>''
     @ ''Action Items:\<newline>''
     @ action_lines 1 (action_items summary)
     @ ''\<newline>''
     @ detailed_blocks (Suc i) summaries"

text \<open>
  Lines 150--157 on \<^verbatim>\<open>seen_actions\<close>, \<^verbatim>\<open>action_counter\<close> and \<^verbatim>\<open>action_mapping\<close>.
  The dict is the list of its items in insertion order.
\<close>

fun item_loop ::
  "string list \<Rightarrow> string set \<times> nat \<times> (nat \<times> string) list
     \<Rightarrow> string set \<times> nat \<times> (nat \<times> string) list" where
  "item_loop [] st = st"
| "item_loop (item # items) (seen_actions, action_counter, action_mapping) =
     (if normalized item \<notin> seen_actions
      then item_loop items
             (insert (normalized item) seen_actions, Suc action_counter,
              AList.update action_counter item action_mapping)
      else item_loop items (seen_actions, action_counter, action_mapping))"

fun summary_loop ::
  "SummaryOutput list \<Rightarrow> string set \<times> nat \<times> (nat \<times> string) list
     \<Rightarrow> string set \<times> nat \<times> (nat \<times> string) list" where
  "summary_loop [] st = st"
| "summary_loop (summary # summaries) st =
     summary_loop summaries (item_loop (action_items summary) st)"

text \<open>Lines 159--160: one line per item of the dict.\<close>

definition entry_line :: "nat \<times> string \<Rightarrow> string" where
  "entry_line e = str_nat (fst e) @ ''. '' @ snd e @ ''\<newline>''"

text \<open>
  The items of \<^verbatim>\<open>action_mapping\<close> as line 159 sorts them. Their keys differ, so the
  order of the pairs is the order of the keys.
\<close>

definition consolidated_items :: "SummaryOutput list \<Rightarrow> (nat \<times> string) list" where
  "consolidated_items summaries =
     (case summary_loop summaries ({}, 1, []) of
        (seen_actions, action_counter, action_mapping) \<Rightarrow> sort_key fst action_mapping)"

definition format_final_output :: "SummaryOutput list \<Rightarrow> string" where
  "format_final_output summaries =
     (if summaries = [] then ''No valid summaries were generated.''
      else
        (let detailed_output =
               ''=== DETAILED CHUNK SUMMARIES ===\<newline>\<newline>'' @ detailed_blocks 1 summaries;
             consolidated_output =
               ''=== CONSOLIDATED ACTION ITEMS ===\<newline>''
               @ concat (map entry_line (consolidated_items summaries))
         in detailed_output @ ''\<newline>'' @ consolidated_output))"

text \<open>The action items of all the summaries, in the order the loops of line 150 meet them.\<close>

definition all_action_items :: "SummaryOutput list \<Rightarrow> string list" where
  "all_action_items summaries = concat (map action_items summaries)"

text \<open>
  The items a pass keeps when the keys in \<open>seen\<close> are taken already: each item whose
  normalized form has not occurred before it.
\<close>

fun first_seen :: "string set \<Rightarrow> string list \<Rightarrow> string list" where
  "first_seen seen [] = []"
| "first_seen seen (item # items) =
     (if normalized item \<in> seen then first_seen seen items
      else item # first_seen (insert (normalized item) seen) items)"

text \<open>
  Two summaries whose action items repeat up to case, punctuation and spaces at the ends.
\<close>

definition sample_summaries :: "SummaryOutput list" where
  "sample_summaries =
     [\<lparr>heading = ''Headers'', main_point = ''Headers help.'',
        action_items = [''Use clear headers.'', ''Add borders'']\<rparr>,
      \<lparr>heading = ''Layout'', main_point = ''Layout matters.'',
        action_items = [''use clear headers'', '' Add borders! '', ''Freeze panes'']\<rparr>]"

section \<open>Properties of the chunker\<close>

lemma chunk_loop_groups:
  "chunk_loop wt mw ss (map join_space gs) cur len =
     (case group_loop wt mw ss gs cur len of (g, c, l) \<Rightarrow> (map join_space g, c, l))"
proof (induction ss arbitrary: gs cur len)
  case Nil
  show ?case by simp
next
  case (Cons s ss)
  show ?case
    using Cons.IH [of gs "cur @ [s]"] Cons.IH [of "gs @ [cur]" "[s]"]
    by (simp add: Let_def)
qed

lemma chunk_text_groups:
  "chunk_text st wt text mw = map join_space (chunk_groups st wt text mw)"
  using chunk_loop_groups [of wt mw "st text" "[]" "[]" 0]
  by (simp add: chunk_text_def chunk_groups_def split: prod.splits)

lemma group_loop_concat:
  "group_loop wt mw ss gs cur len = (g, c, l) \<Longrightarrow> concat g @ c = concat gs @ cur @ ss"
  by (induction ss arbitrary: gs cur len) (auto simp: Let_def split: if_splits)

lemma chunk_groups_concat: "concat (chunk_groups st wt text mw) = st text"
  using group_loop_concat [of wt mw "st text" "[]" "[]" 0]
  by (auto simp: chunk_groups_def split: prod.splits)

lemma group_loop_ok:
  assumes "group_loop wt mw ss gs cur len = (g, c, l)"
    and "\<forall>x\<in>set gs. group_ok wt mw x" and "group_ok wt mw cur"
    and "len = sentence_words wt cur"
  shows "(\<forall>x\<in>set g. group_ok wt mw x) \<and> group_ok wt mw c"
  using assms
proof (induction ss arbitrary: gs cur len)
  case Nil
  then show ?case by simp
next
  case (Cons s ss)
  show ?case
  proof (cases "len + int (length (wt s)) \<le> mw")
    case True
    then have "group_loop wt mw ss gs (cur @ [s]) (len + int (length (wt s))) = (g, c, l)"
      using Cons.prems(1) by (simp add: Let_def)
    moreover have "group_ok wt mw (cur @ [s])"
      using True Cons.prems(4) by (simp add: group_ok_def sentence_words_def word_count_def)
    moreover have "len + int (length (wt s)) = sentence_words wt (cur @ [s])"
      using Cons.prems(4) by (simp add: sentence_words_def word_count_def)
    ultimately show ?thesis using Cons.IH Cons.prems(2) by blast
  next
    case False
    then have "group_loop wt mw ss (gs @ [cur]) [s] (int (length (wt s))) = (g, c, l)"
      using Cons.prems(1) by (simp add: Let_def)
    moreover have "0 \<le> len"
      unfolding Cons.prems(4) sentence_words_def word_count_def
      by (rule sum_list_nonneg) auto
    then have "group_ok wt mw [s]"
      using False by (auto simp: group_ok_def sentence_words_def word_count_def)
    moreover have "int (length (wt s)) = sentence_words wt [s]"
      by (simp add: sentence_words_def word_count_def)
    moreover have "\<forall>x\<in>set (gs @ [cur]). group_ok wt mw x"
      using Cons.prems(2,3) by simp
    ultimately show ?thesis using Cons.IH by blast
  qed
qed

lemma chunk_groups_ok: "g \<in> set (chunk_groups st wt text mw) \<Longrightarrow> group_ok wt mw g"
proof -
  assume a: "g \<in> set (chunk_groups st wt text mw)"
  obtain gs c l where e: "group_loop wt mw (st text) [] [] 0 = (gs, c, l)"
    by (cases "group_loop wt mw (st text) [] [] 0") auto
  have "(\<forall>x\<in>set gs. group_ok wt mw x) \<and> group_ok wt mw c"
    by (rule group_loop_ok [OF e]) (simp_all add: group_ok_def sentence_words_def)
  then show ?thesis using a e by (auto simp: chunk_groups_def split: if_splits)
qed

lemma group_loop_prefix:
  "group_loop wt mw ss gs cur len = (g, c, l) \<Longrightarrow> prefix gs g"
proof (induction ss arbitrary: gs cur len)
  case Nil then show ?case by simp
next
  case (Cons s ss)
  then show ?case
    by (auto simp: Let_def split: if_splits dest: append_prefixD)
qed

lemma word_le_sentence_words: "s \<in> set g \<Longrightarrow> word_count wt s \<le> sentence_words wt g"
  unfolding sentence_words_def
  by (rule member_le_sum_list) (auto simp: word_count_def)




text \<open>
  C2, for a bound that is not negative. Every chunk (the last one too) is a group of
  sentences joined by spaces, and the group is a single sentence with more than
  \<open>max_words\<close> words or has at most \<open>max_words\<close> words, its words being counted as
  the loop counts them, sentence by sentence. This holds for every tokenizer. With a
  negative bound the empty chunk that the loop lays down first has zero words, which is
  more than the bound: see the counterexample below.
\<close>

theorem chunk_text_bounded:
  assumes "0 \<le> max_words"
  shows "chunk_text sent_tokenize word_tokenize text max_words
           = map join_space (chunk_groups sent_tokenize word_tokenize text max_words)
       \<and> (\<forall>g\<in>set (chunk_groups sent_tokenize word_tokenize text max_words).
            (\<exists>s. g = [s] \<and> max_words < word_count word_tokenize s)
            \<or> sentence_words word_tokenize g \<le> max_words)"
proof -
  have "(\<exists>s. g = [s] \<and> max_words < word_count word_tokenize s)
        \<or> sentence_words word_tokenize g \<le> max_words"
    if g: "g \<in> set (chunk_groups sent_tokenize word_tokenize text max_words)" for g
  proof -
    from chunk_groups_ok [OF g]
    consider "g = []" | s where "g = [s]" "max_words < word_count word_tokenize s"
      | "sentence_words word_tokenize g \<le> max_words"
      by (auto simp: group_ok_def)
    then show ?thesis
    proof cases
      case 1
      then show ?thesis using assms by (simp add: sentence_words_def)
    next
      case (2 s)
      then show ?thesis by simp
    next
      case 3
      then show ?thesis by simp
    qed
  qed
  then show ?thesis
    by (simp add: chunk_text_groups)
qed

theorem chunk_text_bounded_witness:
  "(0::int) \<le> 4
   \<and> chunk_groups split_sentences split_words
        ''Hi there. Bye now.  It is a long sentence here. ok'' 4
      = [[''Hi there.'', ''Bye now.''], [''It is a long sentence here.''], [''ok'']]
   \<and> chunk_text split_sentences split_words
        ''Hi there. Bye now.  It is a long sentence here. ok'' 4
      = [''Hi there. Bye now.'', ''It is a long sentence here.'', ''ok'']
   \<and> sentence_words split_words [''Hi there.'', ''Bye now.''] = 4
   \<and> 4 < word_count split_words ''It is a long sentence here.''
   \<and> sentence_words split_words [''ok''] = 1"
proof -
  have h: "(0::int) \<le> 4" by simp
  have g: "chunk_groups split_sentences split_words
        ''Hi there. Bye now.  It is a long sentence here. ok'' 4
      = [[''Hi there.'', ''Bye now.''], [''It is a long sentence here.''], [''ok'']]"
    by (simp add: chunk_groups_def split_sentences_def split_words_def Let_def)
  have w: "sentence_words split_words [''Hi there.'', ''Bye now.''] = 4"
    "4 < word_count split_words ''It is a long sentence here.''"
    "sentence_words split_words [''ok''] = 1"
    by (simp_all add: sentence_words_def word_count_def split_words_def)
  show ?thesis
    using chunk_text_bounded [where word_tokenize = split_words
        and sent_tokenize = split_sentences
        and ?text = "''Hi there. Bye now.  It is a long sentence here. ok''",
        OF h] g w
    by simp
qed

text \<open>
  With the bound \<open>-1\<close> the text of one sentence gives two chunks. The first is the join
  of no sentence, the empty string: it is not the last chunk, it is not a sentence of
  the text, and its zero words are more than the bound.
\<close>

theorem chunk_text_bounded_negative_counterexample:
  "chunk_text split_sentences split_words ''Hi there.'' (- 1) = ['''', ''Hi there.'']
   \<and> chunk_groups split_sentences split_words ''Hi there.'' (- 1) = [[], [''Hi there.'']]
   \<and> split_sentences ''Hi there.'' = [''Hi there.'']
   \<and> sentence_words split_words [] = 0
   \<and> word_count split_words '''' = 0
   \<and> \<not> word_count split_words '''' \<le> - 1
   \<and> \<not> (\<forall>g\<in>set (butlast (chunk_groups split_sentences split_words ''Hi there.'' (- 1))).
          (\<exists>s. g = [s] \<and> - 1 < word_count split_words s)
          \<or> sentence_words split_words g \<le> - 1)
   \<and> \<not> (\<forall>c\<in>set (butlast (chunk_text split_sentences split_words ''Hi there.'' (- 1))).
          (\<exists>s\<in>set (split_sentences ''Hi there.'').
              c = s \<and> - 1 < word_count split_words s)
          \<or> word_count split_words c \<le> - 1)"
proof -
  have e: "chunk_text split_sentences split_words ''Hi there.'' (- 1) = ['''', ''Hi there.'']"
    by (simp add: chunk_text_def split_sentences_def split_words_def)
  have g: "chunk_groups split_sentences split_words ''Hi there.'' (- 1) = [[], [''Hi there.'']]"
    by (simp add: chunk_groups_def split_sentences_def split_words_def)
  have s: "split_sentences ''Hi there.'' = [''Hi there.'']"
    by (simp add: split_sentences_def)
  have w: "word_count split_words '''' = 0" "sentence_words split_words [] = 0"
    by (simp_all add: word_count_def sentence_words_def split_words_def)
  show ?thesis
    by (simp add: e g s w)
qed

text \<open>
  C3. The chunks are the groups of sentences joined by spaces, the groups taken together
  are the sentences of the text in order (so every sentence is in one group, whole), and
  a sentence with more than \<open>max_words\<close> words is alone in its group: its chunk is
  the sentence itself.
\<close>

theorem oversized_sentence_own_chunk:
  "chunk_text sent_tokenize word_tokenize text max_words
     = map join_space (chunk_groups sent_tokenize word_tokenize text max_words)
   \<and> concat (chunk_groups sent_tokenize word_tokenize text max_words) = sent_tokenize text
   \<and> (\<forall>g\<in>set (chunk_groups sent_tokenize word_tokenize text max_words).
        \<forall>s\<in>set g. max_words < word_count word_tokenize s \<longrightarrow> g = [s] \<and> join_space g = s)"
proof -
  have "g = [s] \<and> join_space g = s"
    if g: "g \<in> set (chunk_groups sent_tokenize word_tokenize text max_words)"
      and s: "s \<in> set g" and big: "max_words < word_count word_tokenize s" for g s
  proof -
    from chunk_groups_ok [OF g]
    consider "g = []" | t where "g = [t]"
      | "sentence_words word_tokenize g \<le> max_words"
      by (auto simp: group_ok_def)
    then show ?thesis
    proof cases
      case 1 then show ?thesis using s by simp
    next
      case (2 t) then show ?thesis using s by simp
    next
      case 3
      then show ?thesis using word_le_sentence_words [OF s, of word_tokenize] big by simp
    qed
  qed
  then show ?thesis
    by (simp add: chunk_text_groups chunk_groups_concat)
qed

theorem oversized_sentence_own_chunk_witness:
  "chunk_groups split_sentences split_words
      ''Hi there. Bye now.  It is a long sentence here. ok'' 4
     = [[''Hi there.'', ''Bye now.''], [''It is a long sentence here.''], [''ok'']]
   \<and> chunk_text split_sentences split_words
        ''Hi there. Bye now.  It is a long sentence here. ok'' 4
      = [''Hi there. Bye now.'', ''It is a long sentence here.'', ''ok'']
   \<and> 4 < word_count split_words ''It is a long sentence here.''"
  using oversized_sentence_own_chunk [of split_sentences split_words
      "''Hi there. Bye now.  It is a long sentence here. ok''" 4]
  by (simp add: chunk_groups_def split_sentences_def split_words_def word_count_def)

text \<open>
  C9. When the first sentence has more than \<open>max_words\<close> words, the loop lays down
  the accumulator while it is still empty: the first chunk returned is the empty string,
  and the sentence is the second chunk.
\<close>

theorem oversized_first_sentence_empty_chunk:
  assumes "sent_tokenize text = s # rest"
    and "max_words < word_count word_tokenize s"
  shows "\<exists>more. chunk_text sent_tokenize word_tokenize text max_words = '''' # s # more"
proof -
  obtain g c l where e: "group_loop word_tokenize max_words rest [[]] [s]
      (int (length (word_tokenize s))) = (g, c, l)"
    by (cases "group_loop word_tokenize max_words rest [[]] [s] (int (length (word_tokenize s)))") auto
  have start: "group_loop word_tokenize max_words (sent_tokenize text) [] [] 0 = (g, c, l)"
    using assms e by (simp add: word_count_def Let_def)
  have "\<exists>more. (if c \<noteq> [] then g @ [c] else g) = [] # [s] # more"
  proof (cases rest)
    case Nil
    then show ?thesis using e by auto
  next
    case (Cons r rs)
    then have "group_loop word_tokenize max_words rs [[], [s]] [r]
        (int (length (word_tokenize r))) = (g, c, l)"
      using e assms(2) by (simp add: word_count_def Let_def)
    then have "prefix [[], [s]] g" by (rule group_loop_prefix)
    then show ?thesis by (auto simp: prefix_def)
  qed
  then obtain more where
    "chunk_groups sent_tokenize word_tokenize text max_words = [] # [s] # more"
    using start by (auto simp: chunk_groups_def)
  then show ?thesis
    by (simp add: chunk_text_groups)
qed

theorem oversized_first_sentence_empty_chunk_witness:
  "split_sentences ''It is a long sentence here. ok'' = [''It is a long sentence here.'', ''ok'']
   \<and> 4 < word_count split_words ''It is a long sentence here.''
   \<and> chunk_text split_sentences split_words ''It is a long sentence here. ok'' 4
      = ['''', ''It is a long sentence here.'', ''ok'']"
proof -
  have h1: "split_sentences ''It is a long sentence here. ok''
      = [''It is a long sentence here.'', ''ok'']"
    by (simp add: split_sentences_def)
  have h2: "4 < word_count split_words ''It is a long sentence here.''"
    by (simp add: word_count_def split_words_def)
  show ?thesis
    using h1 h2 oversized_first_sentence_empty_chunk [where sent_tokenize = split_sentences
        and word_tokenize = split_words and max_words = 4, OF h1 h2]
    by (simp add: chunk_text_def split_sentences_def split_words_def)
qed

section \<open>Properties of the summarisation of a chunk and of the run over the chunks\<close>

lemma extract_json_cases:
  "extract_json t =
     (if no_json_pair t then Inl (ValueError ''No JSON found in response'')
      else Inr (json_substring t))"
  by (simp add: extract_json_def no_json_pair_def json_substring_def Let_def)

lemma try_body_malformed:
  "malformed loads t \<Longrightarrow> try_body loads (Output t) \<noteq> Inr (Some s)"
  by (auto simp: try_body_def malformed_def extract_json_cases list_all_iff
      split: option.splits sum.splits)

lemma str_field_Some: "str_field v = Some s \<Longrightarrow> v = JStr s"
  by (cases v) simp_all

lemma those_str_field: "those (map str_field xs) = Some a \<Longrightarrow> xs = map JStr a"
  by (induction xs arbitrary: a) (auto split: option.splits dest: str_field_Some)

lemma str_list_field_Some: "str_list_field v = Some a \<Longrightarrow> v = JArr (map JStr a)"
  by (cases v) (auto dest: those_str_field)

lemma SummaryOutput_init_Inr:
  assumes "SummaryOutput_init d = Inr r"
  shows "map_of d ''heading'' = Some (JStr (heading r))
       \<and> map_of d ''main_point'' = Some (JStr (main_point r))
       \<and> map_of d ''action_items'' = Some (JArr (map JStr (action_items r)))"
  using assms
  by (auto simp: SummaryOutput_init_def split: option.splits
      dest!: str_field_Some str_list_field_Some)

lemma those_str_field_all:
  "those (map str_field xs) = Some a \<Longrightarrow>
     list_all (\<lambda>x. case x of JStr s \<Rightarrow> True | _ \<Rightarrow> False) xs"
  by (drule those_str_field) (simp add: list_all_iff)

lemma SummaryOutput_init_ill_typed:
  "\<not> field_types_ok d \<Longrightarrow> SummaryOutput_init d = Inl ValidationError"
  by (auto simp: SummaryOutput_init_def field_types_ok_def
      split: option.splits json.splits dest: those_str_field_all)

lemma try_body_ill_typed:
  "ill_typed loads t \<Longrightarrow> try_body loads (Output t) = Inl ValidationError"
  by (auto simp: try_body_def ill_typed_def extract_json_cases SummaryOutput_init_ill_typed
      split: option.splits)

lemma try_body_Some:
  assumes "try_body loads result = Inr (Some r)"
  shows "\<exists>t d. result = Output t \<and> \<not> no_json_pair t \<and> loads (json_substring t) = Some d
           \<and> SummaryOutput_init d = Inr r"
  using assms
  by (auto simp: try_body_def extract_json_cases
      split: agent_result.splits option.splits sum.splits if_splits)

lemma run_attempts_Some:
  "run_attempts agent loads p attempts w = (Some r, w') \<Longrightarrow>
     \<exists>w1 result. agent p w1 = (result, w') \<and> try_body loads result = Inr (Some r)"
proof (induction attempts arbitrary: w)
  case Nil
  then show ?case by simp
next
  case (Cons a attempts)
  obtain result w1 where ag: "agent p w = (result, w1)" by (cases "agent p w") auto
  show ?case
  proof (cases "try_body loads result")
    case (Inl e)
    then show ?thesis using Cons ag by simp
  next
    case (Inr v)
    then show ?thesis using Cons ag by (cases v) auto
  qed
qed

lemma run_summary_two_failures:
  assumes "agent (build_prompt chunk) w0 = (r1, w1)"
    and "\<And>s. try_body loads r1 \<noteq> Inr (Some s)"
    and "agent (build_prompt chunk) w1 = (r2, w2)"
    and "\<And>s. try_body loads r2 \<noteq> Inr (Some s)"
  shows "run_summary agent loads chunk w0 = (None, w2)"
proof -
  have step: "run_attempts agent loads (build_prompt chunk) (a # as) w = 
      run_attempts agent loads (build_prompt chunk) as w'"
    if "agent (build_prompt chunk) w = (r, w')" "\<And>s. try_body loads r \<noteq> Inr (Some s)"
    for a as w w' r
    using that by (auto split: sum.splits option.splits)
  have "[0..<2] = [0, Suc 0]" by (simp add: upt_rec)
  then show ?thesis
    using step [OF assms(1,2)] step [OF assms(3,4)]
    by (simp add: run_summary_def)
qed

text \<open>
  C4. If on both attempts the agent gives a response that has no brace pair, or whose
  text between the first opening and the last closing brace does not parse, or that
  parses to an object lacking one of the three keys, then \<open>run_summary\<close> returns
  \<^verbatim>\<open>None\<close>; it does not raise.
\<close>

theorem run_summary_malformed_returns_none:
  assumes "agent (build_prompt chunk) w0 = (Output t1, w1)"
    and "malformed loads t1"
    and "agent (build_prompt chunk) w1 = (Output t2, w2)"
    and "malformed loads t2"
  shows "run_summary agent loads chunk w0 = (None, w2)"
  using assms(1) try_body_malformed [OF assms(2)] assms(3) try_body_malformed [OF assms(4)]
  by (rule run_summary_two_failures)

theorem run_summary_malformed_returns_none_witness:
  \<open>malformed sample_loads ''I cannot summarise this.''
   \<and> malformed sample_loads ''Here: {"heading": "Notes"}''
   \<and> run_summary scripted_agent sample_loads ''Some text.''
        [Output ''I cannot summarise this.'', Output ''Here: {"heading": "Notes"}'']
      = (None, [])\<close>
proof -
  have m1: "malformed sample_loads ''I cannot summarise this.''"
    by (simp add: malformed_def no_json_pair_def py_rfind_def)
  have m2: \<open>malformed sample_loads ''Here: {"heading": "Notes"}''\<close>
    by (simp add: malformed_def no_json_pair_def py_rfind_def json_substring_def py_slice_def
        sample_loads_def required_keys_def)
  have a1: \<open>scripted_agent (build_prompt ''Some text.'')
        [Output ''I cannot summarise this.'', Output ''Here: {"heading": "Notes"}'']
      = (Output ''I cannot summarise this.'', [Output ''Here: {"heading": "Notes"}''])\<close>
    by simp
  have a2: \<open>scripted_agent (build_prompt ''Some text.'') [Output ''Here: {"heading": "Notes"}'']
      = (Output ''Here: {"heading": "Notes"}'', [])\<close>
    by simp
  show ?thesis
    using m1 m2 run_summary_malformed_returns_none [where agent = scripted_agent
        and chunk = "''Some text.''", OF a1 m1 a2 m2] by simp
qed

text \<open>
  C5, as the code has it. A summary that \<open>run_summary\<close> returns comes from a response
  of the agent whose text between the braces parsed to an object in which all three keys
  are present and none is null: \<open>heading\<close> and \<open>main_point\<close> are strings and
  \<open>action_items\<close> is a list of strings, and the summary holds exactly these values.
  Nothing checks that a string is not empty: see the counterexample below.
\<close>

theorem run_summary_record_fields:
  assumes "run_summary agent loads chunk w = (Some r, w')"
  shows "\<exists>w1 response_text json_data.
           agent (build_prompt chunk) w1 = (Output response_text, w')
         \<and> extract_json response_text = Inr (json_substring response_text)
         \<and> loads (json_substring response_text) = Some json_data
         \<and> map_of json_data ''heading'' = Some (JStr (heading r))
         \<and> map_of json_data ''main_point'' = Some (JStr (main_point r))
         \<and> map_of json_data ''action_items'' = Some (JArr (map JStr (action_items r)))"
proof -
  from assms obtain w1 result where
    ag: "agent (build_prompt chunk) w1 = (result, w')"
    and tb: "try_body loads result = Inr (Some r)"
    unfolding run_summary_def Let_def by (blast dest: run_attempts_Some)
  from try_body_Some [OF tb] obtain t d where
    "result = Output t" "\<not> no_json_pair t" "loads (json_substring t) = Some d"
    "SummaryOutput_init d = Inr r"
    by blast
  then show ?thesis
    using ag SummaryOutput_init_Inr [of d r] by (auto simp: extract_json_cases)
qed

theorem run_summary_record_fields_witness:
  \<open>run_summary scripted_agent sample_loads ''Some text.''
      [Output ''I cannot summarise this.'',
       Output ''Here: {"heading": "Notes", "main_point": "Keep notes.", "action_items": ["Write", "Review", "Share"]} Done.'']
     = (Some \<lparr>heading = ''Notes'', main_point = ''Keep notes.'',
               action_items = [''Write'', ''Review'', ''Share'']\<rparr>, [])
   \<and> (\<exists>w1 response_text json_data.
          scripted_agent (build_prompt ''Some text.'') w1 = (Output response_text, [])
        \<and> extract_json response_text = Inr (json_substring response_text)
        \<and> sample_loads (json_substring response_text) = Some json_data
        \<and> map_of json_data ''heading'' = Some (JStr ''Notes'')
        \<and> map_of json_data ''main_point'' = Some (JStr ''Keep notes.'')
        \<and> map_of json_data ''action_items''
            = Some (JArr [JStr ''Write'', JStr ''Review'', JStr ''Share'']))\<close>
proof -
  have h: \<open>run_summary scripted_agent sample_loads ''Some text.''
      [Output ''I cannot summarise this.'',
       Output ''Here: {"heading": "Notes", "main_point": "Keep notes.", "action_items": ["Write", "Review", "Share"]} Done.'']
     = (Some \<lparr>heading = ''Notes'', main_point = ''Keep notes.'',
               action_items = [''Write'', ''Review'', ''Share'']\<rparr>, [])\<close>
    by (simp add: run_summary_def upt_rec try_body_def extract_json_def py_rfind_def
        py_slice_def sample_loads_def required_keys_def SummaryOutput_init_def)
  show ?thesis
    using h run_summary_record_fields [OF h] by simp
qed

text \<open>
  A response whose object has an empty \<open>heading\<close> and an empty \<open>main_point\<close> is
  accepted, and the summary returned has these empty strings.
\<close>

theorem run_summary_empty_heading_counterexample:
  \<open>fst (run_summary scripted_agent sample_loads ''Some text.''
      [Output ''{"heading": "", "main_point": "", "action_items": []}''])
     = Some \<lparr>heading = '''', main_point = '''', action_items = []\<rparr>\<close>
  by (simp add: run_summary_def upt_rec try_body_def extract_json_def py_rfind_def
      py_slice_def sample_loads_def required_keys_def SummaryOutput_init_def)

text \<open>
  C10. If on both attempts the response parses to an object that has the three keys but a
  value of the wrong type, building the \<open>SummaryOutput\<close> raises on each attempt, the
  handler takes it as a failed attempt, and \<open>run_summary\<close> returns \<^verbatim>\<open>None\<close>.
\<close>

theorem run_summary_ill_typed_returns_none:
  assumes "agent (build_prompt chunk) w0 = (Output t1, w1)"
    and "ill_typed loads t1"
    and "agent (build_prompt chunk) w1 = (Output t2, w2)"
    and "ill_typed loads t2"
  shows "try_body loads (Output t1) = Inl ValidationError
       \<and> try_body loads (Output t2) = Inl ValidationError
       \<and> run_summary agent loads chunk w0 = (None, w2)"
proof -
  have f1: "try_body loads (Output t1) = Inl ValidationError"
    using assms(2) by (rule try_body_ill_typed)
  have f2: "try_body loads (Output t2) = Inl ValidationError"
    using assms(4) by (rule try_body_ill_typed)
  have "run_summary agent loads chunk w0 = (None, w2)"
    using assms(1) _ assms(3) by (rule run_summary_two_failures) (simp_all add: f1 f2)
  then show ?thesis using f1 f2 by simp
qed

theorem run_summary_ill_typed_returns_none_witness:
  \<open>ill_typed sample_loads
      ''{"heading": null, "main_point": "Keep notes.", "action_items": ["Write"]}''
   \<and> ill_typed sample_loads
      ''{"heading": "Notes", "main_point": "Keep notes.", "action_items": "Write"}''
   \<and> run_summary scripted_agent sample_loads ''Some text.''
        [Output ''{"heading": null, "main_point": "Keep notes.", "action_items": ["Write"]}'',
         Output ''{"heading": "Notes", "main_point": "Keep notes.", "action_items": "Write"}'']
      = (None, [])\<close>
proof -
  have i1: \<open>ill_typed sample_loads
      ''{"heading": null, "main_point": "Keep notes.", "action_items": ["Write"]}''\<close>
    by (simp add: ill_typed_def no_json_pair_def py_rfind_def json_substring_def py_slice_def
        sample_loads_def required_keys_def field_types_ok_def)
  have i2: \<open>ill_typed sample_loads
      ''{"heading": "Notes", "main_point": "Keep notes.", "action_items": "Write"}''\<close>
    by (simp add: ill_typed_def no_json_pair_def py_rfind_def json_substring_def py_slice_def
        sample_loads_def required_keys_def field_types_ok_def)
  have a1: \<open>scripted_agent (build_prompt ''Some text.'')
        [Output ''{"heading": null, "main_point": "Keep notes.", "action_items": ["Write"]}'',
         Output ''{"heading": "Notes", "main_point": "Keep notes.", "action_items": "Write"}'']
      = (Output ''{"heading": null, "main_point": "Keep notes.", "action_items": ["Write"]}'',
         [Output ''{"heading": "Notes", "main_point": "Keep notes.", "action_items": "Write"}''])\<close>
    by simp
  have a2: \<open>scripted_agent (build_prompt ''Some text.'')
        [Output ''{"heading": "Notes", "main_point": "Keep notes.", "action_items": "Write"}'']
      = (Output ''{"heading": "Notes", "main_point": "Keep notes.", "action_items": "Write"}'', [])\<close>
    by simp
  show ?thesis
    using i1 i2 run_summary_ill_typed_returns_none [where agent = scripted_agent
        and chunk = "''Some text.''", OF a1 i1 a2 i2] by simp
qed

lemma summarize_loop_successful:
  "fst (summarize_loop call chunks acc w) = acc @ successful (outcomes call chunks w)"
proof (induction chunks arbitrary: acc w)
  case Nil
  show ?case by simp
next
  case (Cons c chunks)
  obtain r w1 where c: "call c w = (r, w1)" by (cases "call c w") auto
  show ?case
  proof (cases r)
    case (Inl e)
    then show ?thesis using c Cons.IH by simp
  next
    case (Inr v)
    then show ?thesis using c Cons.IH by (cases v) simp_all
  qed
qed

lemma length_outcomes: "length (outcomes call chunks w) = length chunks"
  by (induction chunks arbitrary: w) (simp_all split: prod.splits)

lemma successful_subseq: "subseq (map (\<lambda>s. Inr (Some s)) (successful rs)) rs"
  by (induction rs rule: successful.induct) (simp_all add: list_emb_Cons)

text \<open>
  C6. \<open>summarize_chunks\<close> returns the summaries among the outcomes of the chunks, in the
  order of the chunks: a chunk whose call returns \<^verbatim>\<open>None\<close> or raises adds nothing and
  the loop goes on. There is one outcome per chunk and the function is total, so the run
  always returns a list, which may be empty.
\<close>

theorem summarize_chunks_keeps_successes:
  "fst (summarize_chunks_with call chunks w) = successful (outcomes call chunks w)
   \<and> length (outcomes call chunks w) = length chunks
   \<and> subseq (map (\<lambda>s. Inr (Some s)) (fst (summarize_chunks_with call chunks w)))
         (outcomes call chunks w)
   \<and> fst (summarize_chunks agent loads chunks v)
       = successful (outcomes (awaited_run_summary agent loads) chunks v)"
  by (simp add: summarize_chunks_def summarize_chunks_with_def summarize_loop_successful
      length_outcomes successful_subseq)

theorem summarize_chunks_keeps_successes_witness:
  \<open>fst (summarize_chunks scripted_agent sample_loads [''First.'', ''Second.'', ''Third.'']
      [Output ''Here: {"heading": "Notes", "main_point": "Keep notes.", "action_items": ["Write", "Review", "Share"]} Done.'',
       Output ''I cannot summarise this.'',
       Raises (OtherError ''timeout''),
       NoOutput,
       Output ''{"heading": "", "main_point": "", "action_items": []}''])
   = [\<lparr>heading = ''Notes'', main_point = ''Keep notes.'',
        action_items = [''Write'', ''Review'', ''Share'']\<rparr>,
      \<lparr>heading = '''', main_point = '''', action_items = []\<rparr>]\<close>
proof -
  have \<open>successful (outcomes (awaited_run_summary scripted_agent sample_loads)
      [''First.'', ''Second.'', ''Third.'']
      [Output ''Here: {"heading": "Notes", "main_point": "Keep notes.", "action_items": ["Write", "Review", "Share"]} Done.'',
       Output ''I cannot summarise this.'',
       Raises (OtherError ''timeout''),
       NoOutput,
       Output ''{"heading": "", "main_point": "", "action_items": []}''])
   = [\<lparr>heading = ''Notes'', main_point = ''Keep notes.'',
        action_items = [''Write'', ''Review'', ''Share'']\<rparr>,
      \<lparr>heading = '''', main_point = '''', action_items = []\<rparr>]\<close>
    by (simp add: awaited_run_summary_def run_summary_def upt_rec try_body_def
        extract_json_def py_rfind_def py_slice_def sample_loads_def required_keys_def
        SummaryOutput_init_def)
  then show ?thesis
    using summarize_chunks_keeps_successes [where agent = scripted_agent
        and loads = sample_loads and call = "awaited_run_summary scripted_agent sample_loads"]
    by simp
qed

section \<open>Properties of the final report\<close>

lemma update_fresh: "k \<notin> fst ` set al \<Longrightarrow> AList.update k v al = al @ [(k, v)]"
  by (induction al) auto

lemma keys_enumerate: "k \<in> fst ` set (enumerate (Suc 0) E) \<Longrightarrow> k \<le> length E"
  by (auto simp: in_set_enumerate_eq)

lemma item_loop_first_seen:
  "item_loop items (seen, Suc (length E), enumerate (Suc 0) E) =
     (seen \<union> normalized ` set items,
      Suc (length (E @ first_seen seen items)),
      enumerate (Suc 0) (E @ first_seen seen items))"
proof (induction items arbitrary: seen E)
  case Nil
  show ?case by simp
next
  case (Cons item items)
  show ?case
  proof (cases "normalized item \<in> seen")
    case True
    then show ?thesis using Cons.IH [of seen E] by (simp add: insert_absorb)
  next
    case False
    have "AList.update (Suc (length E)) item (enumerate (Suc 0) E)
          = enumerate (Suc 0) (E @ [item])"
      using update_fresh [of "Suc (length E)" "enumerate (Suc 0) E" item]
        keys_enumerate [of "Suc (length E)" E]
      by (auto simp: enumerate_append_eq)
    then show ?thesis
      using False Cons.IH [of "insert (normalized item) seen" "E @ [item]"] by simp
  qed
qed

lemma first_seen_append:
  "first_seen seen (xs @ ys)
     = first_seen seen xs @ first_seen (seen \<union> normalized ` set xs) ys"
  by (induction xs arbitrary: seen) (simp_all add: insert_absorb)

lemma summary_loop_first_seen:
  "summary_loop summaries (seen, Suc (length E), enumerate (Suc 0) E) =
     (seen \<union> normalized ` set (concat (map action_items summaries)),
      Suc (length (E @ first_seen seen (concat (map action_items summaries)))),
      enumerate (Suc 0) (E @ first_seen seen (concat (map action_items summaries))))"
proof (induction summaries arbitrary: seen E)
  case Nil
  show ?case by simp
next
  case (Cons s summaries)
  let ?F = "first_seen seen (action_items s)"
  let ?S = "seen \<union> normalized ` set (action_items s)"
  let ?rest = "concat (map action_items summaries)"
  have "summary_loop (s # summaries) (seen, Suc (length E), enumerate (Suc 0) E)
        = summary_loop summaries (?S, Suc (length (E @ ?F)), enumerate (Suc 0) (E @ ?F))"
    by (simp only: summary_loop.simps item_loop_first_seen)
  also have "\<dots> = (?S \<union> normalized ` set ?rest,
      Suc (length ((E @ ?F) @ first_seen ?S ?rest)),
      enumerate (Suc 0) ((E @ ?F) @ first_seen ?S ?rest))"
    by (rule Cons.IH)
  also have "?S \<union> normalized ` set ?rest
      = seen \<union> normalized ` set (concat (map action_items (s # summaries)))"
    by (simp add: image_Un Un_assoc)
  also have "(E @ ?F) @ first_seen ?S ?rest
      = E @ first_seen seen (concat (map action_items (s # summaries)))"
    by (simp add: first_seen_append)
  finally show ?case .
qed

lemma consolidated_items_first_seen:
  "consolidated_items summaries =
     enumerate (Suc 0) (first_seen {} (concat (map action_items summaries)))"
proof -
  let ?F = "first_seen {} (concat (map action_items summaries))"
  have "summary_loop summaries ({}, Suc (length ([]::string list)), enumerate (Suc 0) []) =
      ({} \<union> normalized ` set (concat (map action_items summaries)),
       Suc (length ([] @ ?F)), enumerate (Suc 0) ([] @ ?F))"
    by (rule summary_loop_first_seen)
  moreover have "sort_key fst (enumerate (Suc 0) ?F) = enumerate (Suc 0) ?F"
    by (rule sort_key_id_if_sorted) (rule sorted_enumerate)
  ultimately show ?thesis by (simp add: consolidated_items_def)
qed

lemma first_seen_keys:
  "normalized ` set (first_seen seen items) = normalized ` set items - seen"
  by (induction items arbitrary: seen) auto

lemma first_seen_distinct: "distinct (map normalized (first_seen seen items))"
  by (induction items arbitrary: seen) (auto simp: first_seen_keys)

lemma first_seen_first:
  "e \<in> set (first_seen seen items) \<Longrightarrow>
     List.find (\<lambda>x. normalized x = normalized e) items = Some e"
proof (induction items arbitrary: seen)
  case Nil
  then show ?case by simp
next
  case (Cons item items)
  show ?case
  proof (cases "normalized item \<in> seen")
    case True
    then have e: "e \<in> set (first_seen seen items)" using Cons.prems by simp
    then have "normalized e \<notin> seen" using first_seen_keys [of seen items] by blast
    then have "normalized item \<noteq> normalized e" using True by auto
    then show ?thesis using Cons.IH [OF e] by simp
  next
    case False
    show ?thesis
    proof (cases "e = item")
      case True
      then show ?thesis by simp
    next
      case ne: False
      then have e: "e \<in> set (first_seen (insert (normalized item) seen) items)"
        using Cons.prems False by simp
      then have "normalized e \<notin> insert (normalized item) seen"
        using first_seen_keys [of "insert (normalized item) seen" items] by blast
      then have "normalized item \<noteq> normalized e" by auto
      then show ?thesis using Cons.IH [OF e] by simp
    qed
  qed
qed

lemma one_per_key:
  "distinct (map f xs) \<Longrightarrow> y \<in> f ` set xs \<Longrightarrow> length (filter (\<lambda>e. f e = y) xs) = 1"
proof (induction xs)
  case Nil
  then show ?case by simp
next
  case (Cons x xs)
  show ?case
  proof (cases "f x = y")
    case True
    have "f x \<notin> f ` set xs" using Cons.prems(1) by simp
    then have "\<forall>e\<in>set xs. f e \<noteq> y" using True by blast
    then have "filter (\<lambda>e. f e = y) xs = []"
      by (simp add: filter_empty_conv)
    then show ?thesis using True by simp
  next
    case False
    then show ?thesis using Cons by auto
  qed
qed

lemma first_seen_nth:
  "first_seen seen items =
     map (nth items)
       (filter (\<lambda>i. normalized (items ! i) \<notin> seen \<union> normalized ` set (take i items))
          [0..<length items])"
proof (induction items arbitrary: seen)
  case Nil
  show ?case by simp
next
  case (Cons x xs)
  define P where
    "P = (\<lambda>S ys i. normalized (ys ! i) \<notin> S \<union> normalized ` set (take i ys))"
  have step: "P seen (x # xs) (Suc i) = P (insert (normalized x) seen) xs i" for i
    by (auto simp: P_def)
  have zero: "P seen (x # xs) 0 = (normalized x \<notin> seen)"
    by (simp add: P_def)
  have IH: "first_seen S xs = map (nth xs) (filter (P S xs) [0..<length xs])" for S
    unfolding P_def by (rule Cons.IH)
  have upt: "[0..<length (x # xs)] = 0 # map Suc [0..<length xs]"
    by (simp add: upt_conv_Cons map_Suc_upt del: upt_Suc)
  have tail: "map (nth (x # xs)) (filter (P seen (x # xs)) (map Suc [0..<length xs]))
      = map (nth xs) (filter (P (insert (normalized x) seen) xs) [0..<length xs])"
    by (simp add: filter_map comp_def step)
  have "first_seen seen (x # xs)
      = map (nth (x # xs)) (filter (P seen (x # xs)) [0..<length (x # xs)])"
  proof (cases "normalized x \<in> seen")
    case True
    then have "insert (normalized x) seen = seen" by (rule insert_absorb)
    then have "map (nth (x # xs)) (filter (P seen (x # xs)) (map Suc [0..<length xs]))
        = first_seen seen xs"
      using tail IH [of seen] by simp
    then show ?thesis
      unfolding upt using True by (simp add: zero)
  next
    case False
    have "map (nth (x # xs)) (filter (P seen (x # xs)) (map Suc [0..<length xs]))
        = first_seen (insert (normalized x) seen) xs"
      using tail IH [of "insert (normalized x) seen"] by simp
    then show ?thesis
      unfolding upt using False by (simp add: zero)
  qed
  then show ?case unfolding P_def .
qed

lemma py_strip_parts:
  "\<exists>pre post. s = pre @ py_strip s @ post
      \<and> list_all is_space_char pre \<and> list_all is_space_char post"
proof -
  let ?d = "dropWhile is_space_char s"
  have "s = takeWhile is_space_char s @ ?d" by simp
  moreover have "rev (takeWhile is_space_char (rev ?d) @ dropWhile is_space_char (rev ?d)) = ?d"
    by simp
  then have "rev (dropWhile is_space_char (rev ?d)) @ rev (takeWhile is_space_char (rev ?d)) = ?d"
    by (simp only: rev_append)
  then have "?d = py_strip s @ rev (takeWhile is_space_char (rev ?d))"
    by (simp only: py_strip_def)
  ultimately have "s = takeWhile is_space_char s @ py_strip s
      @ rev (takeWhile is_space_char (rev ?d))"
    by simp
  moreover have "list_all is_space_char (takeWhile is_space_char s)"
    by (auto simp: list_all_iff dest: set_takeWhileD)
  moreover have "list_all is_space_char (rev (takeWhile is_space_char (rev ?d)))"
    by (auto simp: list_all_iff dest: set_takeWhileD)
  ultimately show ?thesis by blast
qed

lemma py_strip_ends:
  assumes "py_strip s \<noteq> []"
  shows "\<not> is_space_char (hd (py_strip s)) \<and> \<not> is_space_char (last (py_strip s))"
proof -
  let ?d = "dropWhile is_space_char s"
  let ?r = "dropWhile is_space_char (rev ?d)"
  have r: "?r \<noteq> []" using assms by (simp add: py_strip_def)
  have d: "?d \<noteq> []"
  proof
    assume e: "?d = []"
    have "dropWhile is_space_char (rev []) = ([]::string)" by simp
    with r show False unfolding e by simp
  qed
  have "last (py_strip s) = hd ?r"
    using r by (simp add: py_strip_def last_rev)
  moreover have "\<not> is_space_char (hd ?r)"
    using r by (rule hd_dropWhile)
  moreover have "hd (py_strip s) = last ?r"
    using r by (simp add: py_strip_def hd_rev)
  moreover have "last ?r = last (rev ?d)"
  proof -
    have a: "last (takeWhile is_space_char (rev ?d) @ ?r) = last ?r"
      using r by (rule last_appendR)
    have b: "takeWhile is_space_char (rev ?d) @ ?r = rev ?d"
      by (rule takeWhile_dropWhile_id)
    show ?thesis using a unfolding b by (rule sym)
  qed
  moreover have "last (rev ?d) = hd ?d"
    using d by (simp add: last_rev)
  moreover have "\<not> is_space_char (hd ?d)"
    using d by (rule hd_dropWhile)
  ultimately show ?thesis by simp
qed

lemma consolidated_items_nth:
  "consolidated_items summaries =
     enumerate 1
       (map (nth (all_action_items summaries))
          (filter (\<lambda>i. normalized (all_action_items summaries ! i)
                         \<notin> normalized ` set (take i (all_action_items summaries)))
             [0..<length (all_action_items summaries)]))"
  using first_seen_nth [of "{}" "all_action_items summaries"]
  by (simp add: consolidated_items_first_seen all_action_items_def)

lemma entries_first_seen:
  "map snd (consolidated_items summaries) = first_seen {} (concat (map action_items summaries))"
  by (simp add: consolidated_items_first_seen)

lemma keys_consolidated:
  "map fst (consolidated_items summaries) = [1..<Suc (length (consolidated_items summaries))]"
  by (simp add: consolidated_items_first_seen del: upt_Suc)

text \<open>
  C7. For the empty list of summaries \<open>format_final_output\<close> returns the fixed sentence
  and no report.
\<close>

theorem format_final_output_empty:
  "format_final_output [] = ''No valid summaries were generated.''"
  by (simp add: format_final_output_def)

text \<open>
  C8. For a list of summaries that is not empty, the report is the detailed section
  followed by the consolidated section. The entries of the consolidated section are
  numbered 1, 2, ... and are, in this order, the action items whose normalized form does
  not occur among the action items before them, in their original text. So for every
  action item there is exactly one entry with the same normalized form, which is the
  first action item with that form. The normalized form of an item is what is left of
  the item in lower case, without the characters that are neither word characters nor
  spaces, when the spaces at its two ends are taken away.
\<close>

theorem consolidated_section_first_seen:
  assumes "summaries \<noteq> []"
  shows "format_final_output summaries =
           ''=== DETAILED CHUNK SUMMARIES ===\<newline>\<newline>'' @ detailed_blocks 1 summaries
           @ ''\<newline>'' @ ''=== CONSOLIDATED ACTION ITEMS ===\<newline>''
           @ concat (map entry_line (consolidated_items summaries))
       \<and> consolidated_items summaries =
           enumerate 1
             (map (nth (all_action_items summaries))
                (filter (\<lambda>i. normalized (all_action_items summaries ! i)
                               \<notin> normalized ` set (take i (all_action_items summaries)))
                   [0..<length (all_action_items summaries)]))
       \<and> map fst (consolidated_items summaries)
           = [1..<Suc (length (consolidated_items summaries))]
       \<and> (\<forall>a\<in>set (all_action_items summaries).
            \<exists>e. filter (\<lambda>x. normalized x = normalized a)
                   (map snd (consolidated_items summaries)) = [e]
               \<and> List.find (\<lambda>x. normalized x = normalized a)
                   (all_action_items summaries) = Some e)
       \<and> (\<forall>item. \<exists>pre post.
            filter (\<lambda>c. is_word_char c \<or> is_space_char c) (map lower_char item)
              = pre @ normalized item @ post
            \<and> list_all is_space_char pre \<and> list_all is_space_char post
            \<and> (normalized item \<noteq> [] \<longrightarrow>
                 \<not> is_space_char (hd (normalized item))
                 \<and> \<not> is_space_char (last (normalized item))))"
proof -
  let ?items = "all_action_items summaries"
  let ?E = "map snd (consolidated_items summaries)"
  have E: "?E = first_seen {} ?items"
    by (simp add: entries_first_seen all_action_items_def)
  have out: "format_final_output summaries =
           ''=== DETAILED CHUNK SUMMARIES ===\<newline>\<newline>'' @ detailed_blocks 1 summaries
           @ ''\<newline>'' @ ''=== CONSOLIDATED ACTION ITEMS ===\<newline>''
           @ concat (map entry_line (consolidated_items summaries))"
    using assms by (simp add: format_final_output_def)
  have cls: "\<exists>e. filter (\<lambda>x. normalized x = normalized a) ?E = [e]
               \<and> List.find (\<lambda>x. normalized x = normalized a) ?items = Some e"
    if a: "a \<in> set ?items" for a
  proof -
    have "normalized a \<in> normalized ` set ?E"
      unfolding E using a by (simp add: first_seen_keys)
    moreover have "distinct (map normalized ?E)"
      unfolding E by (rule first_seen_distinct)
    ultimately have "length (filter (\<lambda>x. normalized x = normalized a) ?E) = 1"
      by (rule one_per_key [rotated])
    then obtain e where e: "filter (\<lambda>x. normalized x = normalized a) ?E = [e]"
      by (cases "filter (\<lambda>x. normalized x = normalized a) ?E") auto
    then have "e \<in> set (filter (\<lambda>x. normalized x = normalized a) ?E)" by simp
    then have mem: "e \<in> set (first_seen {} ?items)" and key: "normalized e = normalized a"
      using E by auto
    have "List.find (\<lambda>x. normalized x = normalized e) ?items = Some e"
      using mem by (rule first_seen_first)
    then show ?thesis using e key by simp
  qed
  have norm: "\<exists>pre post.
            filter (\<lambda>c. is_word_char c \<or> is_space_char c) (map lower_char item)
              = pre @ normalized item @ post
            \<and> list_all is_space_char pre \<and> list_all is_space_char post
            \<and> (normalized item \<noteq> [] \<longrightarrow>
                 \<not> is_space_char (hd (normalized item))
                 \<and> \<not> is_space_char (last (normalized item)))" for item
  proof -
    let ?k = "filter (\<lambda>c. is_word_char c \<or> is_space_char c) (map lower_char item)"
    have n: "normalized item = py_strip ?k" by (simp add: normalized_def)
    obtain pre post where "?k = pre @ py_strip ?k @ post"
      "list_all is_space_char pre" "list_all is_space_char post"
      using py_strip_parts [of ?k] by blast
    moreover have "py_strip ?k \<noteq> [] \<longrightarrow>
        \<not> is_space_char (hd (py_strip ?k)) \<and> \<not> is_space_char (last (py_strip ?k))"
      using py_strip_ends [of ?k] by blast
    ultimately show ?thesis unfolding n by blast
  qed
  have cls_all: "\<forall>a\<in>set ?items.
            \<exists>e. filter (\<lambda>x. normalized x = normalized a) ?E = [e]
               \<and> List.find (\<lambda>x. normalized x = normalized a) ?items = Some e"
    using cls by (rule ballI)
  have norm_all: "\<forall>item. \<exists>pre post.
            filter (\<lambda>c. is_word_char c \<or> is_space_char c) (map lower_char item)
              = pre @ normalized item @ post
            \<and> list_all is_space_char pre \<and> list_all is_space_char post
            \<and> (normalized item \<noteq> [] \<longrightarrow>
                 \<not> is_space_char (hd (normalized item))
                 \<and> \<not> is_space_char (last (normalized item)))"
    using norm by (rule allI)
  show ?thesis
    using out consolidated_items_nth [of summaries] keys_consolidated [of summaries]
      cls_all norm_all
    by (intro conjI)
qed

theorem consolidated_section_first_seen_witness:
  "sample_summaries \<noteq> []
   \<and> normalized ''Use clear headers.'' = ''use clear headers''
   \<and> normalized ''use clear headers'' = ''use clear headers''
   \<and> normalized '' Add borders! '' = ''add borders''
   \<and> normalized (''Caf'' @ [CHR 0xC9]) = ''caf'' @ [CHR 0xE9]
   \<and> normalized ([CHR 0xA0] @ ''ok'' @ [CHR 0x85]) = ''ok''
   \<and> consolidated_items sample_summaries
      = [(1, ''Use clear headers.''), (2, ''Add borders''), (3, ''Freeze panes'')]
   \<and> format_final_output sample_summaries
      = ''=== DETAILED CHUNK SUMMARIES ===\<newline>\<newline>CHUNK 1: Headers\<newline>Main Point: Headers help.\<newline>Action Items:\<newline>  1. Use clear headers.\<newline>  2. Add borders\<newline>\<newline>CHUNK 2: Layout\<newline>Main Point: Layout matters.\<newline>Action Items:\<newline>  1. use clear headers\<newline>  2.  Add borders! \<newline>  3. Freeze panes\<newline>\<newline>\<newline>=== CONSOLIDATED ACTION ITEMS ===\<newline>1. Use clear headers.\<newline>2. Add borders\<newline>3. Freeze panes\<newline>''"
proof -
  have ne: "sample_summaries \<noteq> []" by (simp add: sample_summaries_def)
  have n1: "normalized ''Use clear headers.'' = ''use clear headers''"
    "normalized ''use clear headers'' = ''use clear headers''"
    "normalized ''Add borders'' = ''add borders''"
    "normalized '' Add borders! '' = ''add borders''"
    "normalized ''Freeze panes'' = ''freeze panes''"
    by (simp_all add: normalized_def py_strip_def lower_char_def upper_chars_def
        lower_chars_def is_word_char_def is_space_char_def)
  have n2: "normalized (''Caf'' @ [CHR 0xC9]) = ''caf'' @ [CHR 0xE9]"
    "normalized ([CHR 0xA0] @ ''ok'' @ [CHR 0x85]) = ''ok''"
    by (simp_all add: normalized_def py_strip_def lower_char_def upper_chars_def
        lower_chars_def is_word_char_def is_space_char_def)
  have c: "consolidated_items sample_summaries
      = [(1, ''Use clear headers.''), (2, ''Add borders''), (3, ''Freeze panes'')]"
    by (simp add: consolidated_items_def sample_summaries_def n1)
  have d: "detailed_blocks (Suc 0) sample_summaries
      = ''CHUNK 1: Headers\<newline>Main Point: Headers help.\<newline>Action Items:\<newline>  1. Use clear headers.\<newline>  2. Add borders\<newline>\<newline>CHUNK 2: Layout\<newline>Main Point: Layout matters.\<newline>Action Items:\<newline>  1. use clear headers\<newline>  2.  Add borders! \<newline>  3. Freeze panes\<newline>\<newline>''"
    by (simp add: sample_summaries_def)
  have f: "format_final_output sample_summaries
      = ''=== DETAILED CHUNK SUMMARIES ===\<newline>\<newline>CHUNK 1: Headers\<newline>Main Point: Headers help.\<newline>Action Items:\<newline>  1. Use clear headers.\<newline>  2. Add borders\<newline>\<newline>CHUNK 2: Layout\<newline>Main Point: Layout matters.\<newline>Action Items:\<newline>  1. use clear headers\<newline>  2.  Add borders! \<newline>  3. Freeze panes\<newline>\<newline>\<newline>=== CONSOLIDATED ACTION ITEMS ===\<newline>1. Use clear headers.\<newline>2. Add borders\<newline>3. Freeze panes\<newline>''"
    using consolidated_section_first_seen [OF ne, THEN conjunct1]
    by (simp add: c d entry_line_def)
  show ?thesis
    using ne n1(1,2,4) n2 c f by simp
qed

end
